theory Spec2Isabelle
  imports Complex_Main "HOL-Library.Multiset"
begin

section \<open>Simulated annealing and parallel tempering (AbstractSA.py)\<close>

text \<open>
  The embedding follows \<^verbatim>\<open>src/AbstractSA.py\<close>. Conventions:
  \<^item> Python floats are modelled as \<^typ>\<open>real\<close>; costs and temperatures are Python
    scalars (the source annotates \<^verbatim>\<open>self.y: int\<close>, \<^verbatim>\<open>self.T: float\<close>), so a
    division by a zero temperature raises \<^verbatim>\<open>ZeroDivisionError\<close>; this is a branch
    of the model.
  \<^item> The process-global NumPy generator is an explicit generator state of type \<open>'g\<close>,
    threaded through every call; \<open>rnd\<close> stands for \<^verbatim>\<open>np.random.rand()\<close> and
    \<^verbatim>\<open>np.random.random()\<close> (one uniform draw, and the advanced generator).
  \<^item> The abstract method \<^verbatim>\<open>transition\<close> is a parameter: it reads the object and the
    generator and returns the candidate and the advanced generator.
  \<^item> Logging, the MPI barrier and the pickling of the best state write nothing that the
    algorithm reads back; they are left out (the fields \<^verbatim>\<open>task_name\<close>,
    \<^verbatim>\<open>params\<close>, \<^verbatim>\<open>_verbose\<close>, \<^verbatim>\<open>_output\<close>, \<^verbatim>\<open>_logger\<close> with them).
    The module \<^verbatim>\<open>pk\<close> that \<^verbatim>\<open>save_var\<close> calls is not bound in the file; saving is
    taken to succeed.
  \<^item> Faults of the caller's objective and transition are not modelled: both are total
    functions here, and the transition does not write to the object.
\<close>

subsection \<open>The objects\<close>

datatype error = ZeroDivisionError

record 's SA =
  obj :: "'s \<Rightarrow> real"
  x0 :: 's
  x :: 's
  y :: real
  best_x :: 's
  best_y :: real
  T_i :: real
  T_f :: real
  T :: real
  reps :: int
  iters :: int
  decay :: real

record 's PTSA = "'s SA" +
  theta :: real
  rank :: nat

text \<open>\<^verbatim>\<open>SA.__init__\<close>: current and best state are copies of \<open>x0\<close>, both costs are
  \<open>obj x0\<close>, the temperature starts at \<open>T_i\<close>.\<close>

definition SA_init ::
  "('s \<Rightarrow> real) \<Rightarrow> 's \<Rightarrow> real \<Rightarrow> real \<Rightarrow> real \<Rightarrow> int \<Rightarrow> int \<Rightarrow> 's SA" where
  "SA_init ob start Ti Tf d r it =
     \<lparr>obj = ob, x0 = start, x = start, y = ob start, best_x = start, best_y = ob start,
      T_i = Ti, T_f = Tf, T = Ti, reps = r, iters = it, decay = d\<rparr>"

text \<open>\<^verbatim>\<open>PTSA.__init__\<close>: the base constructor, then \<open>theta\<close> and \<open>rank = 0\<close>.\<close>

definition PTSA_init ::
  "('s \<Rightarrow> real) \<Rightarrow> 's \<Rightarrow> real \<Rightarrow> real \<Rightarrow> real \<Rightarrow> int \<Rightarrow> int \<Rightarrow> real \<Rightarrow> 's PTSA" where
  "PTSA_init ob start Ti Tf d r it th =
     SA.extend (SA_init ob start Ti Tf d r it) (PTSA.fields th 0)"

subsection \<open>The Metropolis trial and the inner loop\<close>

text \<open>The assignments of an accepted trial (lines 77--79 and 141--143): the current
  state and cost are replaced, and the best ones when the new cost is strictly lower.\<close>

definition accept_move :: "('s, 'z) SA_scheme \<Rightarrow> 's \<Rightarrow> real \<Rightarrow> ('s, 'z) SA_scheme" where
  "accept_move s x_new y_new =
     (if y_new < best_y s
      then s\<lparr>x := x_new, y := y_new, best_x := x_new, best_y := y_new\<rparr>
      else s\<lparr>x := x_new, y := y_new\<rparr>)"

text \<open>The condition \<^verbatim>\<open>df < 0 or np.exp(-df / self.T) > np.random.rand()\<close>. Python's
  \<^verbatim>\<open>or\<close> is short-circuit: for \<open>df < 0\<close> nothing is divided and nothing is drawn.
  Otherwise the quotient is evaluated first (raising for \<open>T = 0\<close>), then one number is
  drawn.\<close>

definition metropolis ::
  "('g \<Rightarrow> real \<times> 'g) \<Rightarrow> real \<Rightarrow> real \<Rightarrow> 'g \<Rightarrow> error + (bool \<times> 'g)" where
  "metropolis rnd df temp g =
     (if df < 0 then Inr (True, g)
      else if temp = 0 then Inl ZeroDivisionError
      else (case rnd g of (u, g') \<Rightarrow> Inr (exp (- df / temp) > u, g')))"

text \<open>One pass of the loop body of \<^verbatim>\<open>step\<close> (lines 72--79, and 136--143).\<close>

definition trial ::
  "(('s, 'z) SA_scheme \<Rightarrow> 'g \<Rightarrow> 's \<times> 'g) \<Rightarrow> ('g \<Rightarrow> real \<times> 'g) \<Rightarrow>
   ('s, 'z) SA_scheme \<Rightarrow> 'g \<Rightarrow> error + (('s, 'z) SA_scheme \<times> 'g)" where
  "trial transition rnd s g =
     (case transition s g of (x_new, g1) \<Rightarrow>
        (let y_new = obj s x_new; df = y_new - y s in
         case metropolis rnd df (T s) g1 of
           Inl e \<Rightarrow> Inl e
         | Inr (acc, g2) \<Rightarrow> Inr (if acc then accept_move s x_new y_new else s, g2)))"

text \<open>\<^verbatim>\<open>for i in range(self._reps)\<close>: the body runs \<open>nat reps\<close> times (not at all for
  a negative count); an exception leaves the loop.\<close>

fun trials ::
  "(('s, 'z) SA_scheme \<Rightarrow> 'g \<Rightarrow> 's \<times> 'g) \<Rightarrow> ('g \<Rightarrow> real \<times> 'g) \<Rightarrow> nat \<Rightarrow>
   ('s, 'z) SA_scheme \<Rightarrow> 'g \<Rightarrow> error + (('s, 'z) SA_scheme \<times> 'g)" where
  "trials transition rnd 0 s g = Inr (s, g)"
| "trials transition rnd (Suc n) s g =
     (case trial transition rnd s g of
        Inl e \<Rightarrow> Inl e
      | Inr (s', g') \<Rightarrow> trials transition rnd n s' g')"

definition SA_step ::
  "(('s, 'z) SA_scheme \<Rightarrow> 'g \<Rightarrow> 's \<times> 'g) \<Rightarrow> ('g \<Rightarrow> real \<times> 'g) \<Rightarrow>
   ('s, 'z) SA_scheme \<Rightarrow> 'g \<Rightarrow> error + (('s, 'z) SA_scheme \<times> 'g)" where
  "SA_step transition rnd s g = trials transition rnd (nat (reps s)) s g"

text \<open>\<^verbatim>\<open>PTSA.step\<close> overrides \<^verbatim>\<open>SA.step\<close> with the same loop (behind a barrier).\<close>

definition PTSA_step ::
  "(('s, 'z) PTSA_scheme \<Rightarrow> 'g \<Rightarrow> 's \<times> 'g) \<Rightarrow> ('g \<Rightarrow> real \<times> 'g) \<Rightarrow>
   ('s, 'z) PTSA_scheme \<Rightarrow> 'g \<Rightarrow> error + (('s, 'z) PTSA_scheme \<times> 'g)" where
  "PTSA_step transition rnd s g = trials transition rnd (nat (reps s)) s g"

text \<open>\<^verbatim>\<open>cool_down\<close>: \<^verbatim>\<open>self.T *= self._decay\<close>.\<close>

definition cool_down :: "('s, 'z) SA_scheme \<Rightarrow> ('s, 'z) SA_scheme" where
  "cool_down s = s\<lparr>T := T s * decay s\<rparr>"

subsection \<open>The single-replica run\<close>

text \<open>\<^verbatim>\<open>SA.run\<close>: \<^verbatim>\<open>while self.T > self.T_f: self.step(); self.cool_down()\<close>. The loop
  need not end (a decay of 1, say), so it runs on fuel: one unit per pass of the body,
  and \<open>None\<close> when the guard still holds with no fuel left. \<open>Some (Inl e)\<close> is an
  exception, \<open>Some (Inr (s, g))\<close> the object and the generator when the loop is left.\<close>

fun SA_loop ::
  "(('s, 'z) SA_scheme \<Rightarrow> 'g \<Rightarrow> 's \<times> 'g) \<Rightarrow> ('g \<Rightarrow> real \<times> 'g) \<Rightarrow> nat \<Rightarrow>
   ('s, 'z) SA_scheme \<Rightarrow> 'g \<Rightarrow> (error + (('s, 'z) SA_scheme \<times> 'g)) option" where
  "SA_loop transition rnd 0 s g = (if T s > T_f s then None else Some (Inr (s, g)))"
| "SA_loop transition rnd (Suc k) s g =
     (if T s > T_f s then
        (case SA_step transition rnd s g of
           Inl e \<Rightarrow> Some (Inl e)
         | Inr (s', g') \<Rightarrow> SA_loop transition rnd k (cool_down s') g')
      else Some (Inr (s, g)))"



subsection \<open>The exchange decision of rank 0\<close>

text \<open>\<^verbatim>\<open>np.argsort(T)\<close>: the indices of \<open>ts\<close> in ascending order of their values.
  NumPy leaves the order of equal values open; here they come in index order, and the
  properties below use only that the result is a permutation of the indices.\<close>

definition argsort :: "real list \<Rightarrow> nat list" where
  "argsort ts = sort_key (\<lambda>i. ts ! i) [0..<length ts]"

text \<open>Line 182. Each of the four quotients divides by \<open>ts ! sol1\<close> or \<open>ts ! sol2\<close>.\<close>

definition accept_rate :: "real list \<Rightarrow> real list \<Rightarrow> nat \<Rightarrow> nat \<Rightarrow> error + real" where
  "accept_rate ts fx sol1 sol2 =
     (if ts ! sol1 = 0 \<or> ts ! sol2 = 0 then Inl ZeroDivisionError
      else Inr (exp (- (fx ! sol2) / (ts ! sol1) - (fx ! sol1) / (ts ! sol2)
                     + (fx ! sol2) / (ts ! sol2) + (fx ! sol1) / (ts ! sol1))))"

text \<open>Lines 179--184 for one pair: a first draw decides whether the pair is tried
  (\<^verbatim>\<open>np.random.random() > self.theta\<close>), a second one whether the two entries of the
  list \<open>ts\<close> are exchanged in place.\<close>

definition exchange_pair ::
  "('g \<Rightarrow> real \<times> 'g) \<Rightarrow> real \<Rightarrow> real list \<Rightarrow> nat \<Rightarrow> nat \<Rightarrow> real list \<Rightarrow> 'g \<Rightarrow>
   error + (real list \<times> 'g)" where
  "exchange_pair rnd th fx sol1 sol2 ts g =
     (case rnd g of (u1, g1) \<Rightarrow>
        if u1 > th then
          (case accept_rate ts fx sol1 sol2 of
             Inl e \<Rightarrow> Inl e
           | Inr rate \<Rightarrow>
               (case rnd g1 of (u2, g2) \<Rightarrow>
                  if rate > u2 then Inr (ts[sol1 := ts ! sol2, sol2 := ts ! sol1], g2)
                  else Inr (ts, g2)))
        else Inr (ts, g1))"

text \<open>\<^verbatim>\<open>for i in range(SIZE - 1)\<close>, over the list of the values of \<open>i\<close> still to come.
  The list \<open>index\<close> is never written (the line that would is commented out).\<close>

fun sweep ::
  "('g \<Rightarrow> real \<times> 'g) \<Rightarrow> real \<Rightarrow> real list \<Rightarrow> nat list \<Rightarrow> nat list \<Rightarrow> real list \<Rightarrow> 'g \<Rightarrow>
   error + (real list \<times> 'g)" where
  "sweep rnd th fx index [] ts g = Inr (ts, g)"
| "sweep rnd th fx index (i # is) ts g =
     (case exchange_pair rnd th fx (index ! i) (index ! (i + 1)) ts g of
        Inl e \<Rightarrow> Inl e
      | Inr (ts', g') \<Rightarrow> sweep rnd th fx index is ts' g')"

text \<open>Lines 174--186: \<open>msg\<close> is the gathered list of \<^verbatim>\<open>[T, best_y, rank]\<close>, one entry
  per rank, and \<open>SIZE\<close> its length.\<close>

definition exchange_decision ::
  "('g \<Rightarrow> real \<times> 'g) \<Rightarrow> real \<Rightarrow> (real \<times> real \<times> nat) list \<Rightarrow> 'g \<Rightarrow>
   error + (real list \<times> 'g)" where
  "exchange_decision rnd th msg g =
     (let ts = map fst msg; fx = map (\<lambda>m. fst (snd m)) msg; index = argsort ts
      in sweep rnd th fx index [0..<length msg - 1] ts g)"

text \<open>The values that the pair at sorted position \<open>i\<close> reads when its turn comes:
  \<open>(T1, fx1, T2, fx2)\<close>, from the list \<open>ts\<close> as it is then.\<close>

definition pair_inputs ::
  "real list \<Rightarrow> real list \<Rightarrow> nat list \<Rightarrow> nat \<Rightarrow> real \<times> real \<times> real \<times> real" where
  "pair_inputs ts fx index i =
     (ts ! (index ! i), fx ! (index ! i), ts ! (index ! (i + 1)), fx ! (index ! (i + 1)))"

subsection \<open>The replicas in lockstep\<close>

text \<open>The \<open>N\<close> processes, in rank order, each with its own generator. The collective
  calls make every process wait for all the others, so one outer iteration is a function
  of the whole list; an exception in any process ends the run.\<close>

type_synonym ('s, 'z, 'g) replicas = "(('s, 'z) PTSA_scheme \<times> 'g) list"

fun step_all ::
  "(('s, 'z) PTSA_scheme \<Rightarrow> 'g \<Rightarrow> 's \<times> 'g) \<Rightarrow> ('g \<Rightarrow> real \<times> 'g) \<Rightarrow>
   ('s, 'z, 'g) replicas \<Rightarrow> error + ('s, 'z, 'g) replicas" where
  "step_all transition rnd [] = Inr []"
| "step_all transition rnd ((s, g) # rest) =
     (case PTSA_step transition rnd s g of
        Inl e \<Rightarrow> Inl e
      | Inr sg \<Rightarrow>
          (case step_all transition rnd rest of
             Inl e \<Rightarrow> Inl e
           | Inr rest' \<Rightarrow> Inr (sg # rest')))"

text \<open>\<^verbatim>\<open>COMM.gather([self.T, self.best_y, self.rank], root=0)\<close>.\<close>

definition gather :: "('s, 'z, 'g) replicas \<Rightarrow> (real \<times> real \<times> nat) list" where
  "gather sys = map (\<lambda>(s, g). (T s, best_y s, rank s)) sys"

text \<open>\<^verbatim>\<open>self.T = COMM.scatter(data, root=0)\<close>: rank \<open>k\<close> receives \<open>data ! k\<close>.\<close>

definition scatter :: "real list \<Rightarrow> ('s, 'z, 'g) replicas \<Rightarrow> ('s, 'z, 'g) replicas" where
  "scatter data sys = map (\<lambda>(t, (s, g)). (s\<lparr>T := t\<rparr>, g)) (zip data sys)"

text \<open>One pass of the loop of \<^verbatim>\<open>PTSA.run\<close> (lines 156--192). The draws of the exchange
  come from the generator of rank 0, after its own step.\<close>

definition PTSA_iteration ::
  "(('s, 'z) PTSA_scheme \<Rightarrow> 'g \<Rightarrow> 's \<times> 'g) \<Rightarrow> ('g \<Rightarrow> real \<times> 'g) \<Rightarrow>
   ('s, 'z, 'g) replicas \<Rightarrow> error + ('s, 'z, 'g) replicas" where
  "PTSA_iteration transition rnd sys =
     (case step_all transition rnd sys of
        Inl e \<Rightarrow> Inl e
      | Inr [] \<Rightarrow> Inr []
      | Inr ((s0, g0) # rest) \<Rightarrow>
          (case exchange_decision rnd (theta s0) (gather ((s0, g0) # rest)) g0 of
             Inl e \<Rightarrow> Inl e
           | Inr (data, g0') \<Rightarrow>
               Inr (map (\<lambda>(s, g). (cool_down s, g)) (scatter data ((s0, g0') # rest)))))"

text \<open>\<^verbatim>\<open>while it < self._iters\<close>, with \<open>n\<close> the number of passes still to make.\<close>

fun PTSA_loop ::
  "(('s, 'z) PTSA_scheme \<Rightarrow> 'g \<Rightarrow> 's \<times> 'g) \<Rightarrow> ('g \<Rightarrow> real \<times> 'g) \<Rightarrow> nat \<Rightarrow>
   ('s, 'z, 'g) replicas \<Rightarrow> error + ('s, 'z, 'g) replicas" where
  "PTSA_loop transition rnd 0 sys = Inr sys"
| "PTSA_loop transition rnd (Suc n) sys =
     (case PTSA_iteration transition rnd sys of
        Inl e \<Rightarrow> Inl e
      | Inr sys' \<Rightarrow> PTSA_loop transition rnd n sys')"

text \<open>\<^verbatim>\<open>PTSA.run\<close>: every process stores its rank, then all make \<open>_iters\<close> passes (the
  processes are constructed with one \<open>_iters\<close>; the count is read from rank 0).\<close>

definition set_ranks :: "('s, 'z, 'g) replicas \<Rightarrow> ('s, 'z, 'g) replicas" where
  "set_ranks sys = map (\<lambda>(k, (s, g)). (s\<lparr>rank := k\<rparr>, g)) (zip [0..<length sys] sys)"

definition PTSA_run ::
  "(('s, 'z) PTSA_scheme \<Rightarrow> 'g \<Rightarrow> 's \<times> 'g) \<Rightarrow> ('g \<Rightarrow> real \<times> 'g) \<Rightarrow>
   ('s, 'z, 'g) replicas \<Rightarrow> error + ('s, 'z, 'g) replicas" where
  "PTSA_run transition rnd sys =
     (case sys of
        [] \<Rightarrow> Inr []
      | (s0, g0) # rest \<Rightarrow> PTSA_loop transition rnd (nat (iters s0)) (set_ranks sys))"


text \<open>A generator for concrete runs: the list of the numbers still to be drawn (and 0
  for ever once it is used up).\<close>

definition draw :: "real list \<Rightarrow> real \<times> real list" where
  "draw g = (case g of [] \<Rightarrow> (0, []) | u # us \<Rightarrow> (u, us))"

subsection \<open>Objects for concrete runs\<close>

text \<open>States are integers and the cost of a state is its value; one transition steps
  up, the other down.\<close>

definition ex_SA :: "int SA" where
  "ex_SA = SA_init real_of_int 5 100 1 (9/10) 3 10"

definition ex_up :: "(int, 'z) SA_scheme \<Rightarrow> 'g \<Rightarrow> int \<times> 'g" where
  "ex_up s g = (x s + 1, g)"

definition ex_down :: "(int, 'z) SA_scheme \<Rightarrow> 'g \<Rightarrow> int \<times> 'g" where
  "ex_down s g = (x s - 1, g)"

definition ex_PTSA :: "int PTSA" where
  "ex_PTSA = PTSA_init real_of_int 5 100 1 (9/10) 3 10 (1/2)"


text \<open>Two replicas with temperatures 1 and 2, costs 5 and 3, \<open>theta = 0\<close>, one trial
  per step and one outer iteration; and what one iteration with downward transitions
  makes of them.\<close>

definition ex_pair :: "(int PTSA \<times> real list) list" where
  "ex_pair = [(PTSA_init real_of_int 5 1 0 (9/10) 1 1 0, [1/2, 0]),
              (PTSA_init real_of_int 3 2 0 (9/10) 1 1 0, [])]"

definition ex_pair_after :: "(int PTSA \<times> real list) list" where
  "ex_pair_after =
     [((PTSA_init real_of_int 5 1 0 (9/10) 1 1 0)
         \<lparr>x := 4, y := 4, best_x := 4, best_y := 4, T := 9/5\<rparr>, []),
      ((PTSA_init real_of_int 3 2 0 (9/10) 1 1 0)
         \<lparr>x := 2, y := 2, best_x := 2, best_y := 2, T := 9/10, rank := 1\<rparr>, [])]"

text \<open>A single-replica run that cools below \<open>T_f\<close> in one pass.\<close>

definition ex_short :: "int SA" where
  "ex_short = SA_init real_of_int 5 2 1 (1/2) 1 0"

section \<open>Properties of one trial and of the inner loop\<close>

lemma metropolis_Inr_iff:
  "metropolis rnd df temp g = Inr (acc, g') \<longleftrightarrow>
     (df < 0 \<and> acc \<and> g' = g) \<or>
     (\<not> df < 0 \<and> temp \<noteq> 0 \<and> acc = (fst (rnd g) < exp (- df / temp)) \<and> g' = snd (rnd g))"
  by (auto simp: metropolis_def split: prod.splits)

lemma metropolis_Inl_iff:
  "metropolis rnd df temp g = Inl e \<longleftrightarrow> \<not> df < 0 \<and> temp = 0"
  by (cases e) (auto simp: metropolis_def split: prod.splits)

lemma trial_Inr_cases:
  assumes "trial transition rnd s g = Inr (s', g')"
  shows "s' = s \<or> s' = accept_move s (fst (transition s g)) (obj s (fst (transition s g)))"
  using assms
  by (auto simp: trial_def Let_def split: prod.splits sum.splits if_splits)

lemma accept_move_inv: "best_y (accept_move s c (obj s c)) \<le> y (accept_move s c (obj s c))"
  by (simp add: accept_move_def)

lemma accept_move_best_le: "best_y (accept_move s c v) \<le> best_y s"
  by (simp add: accept_move_def)

lemma trial_inv:
  "best_y s \<le> y s \<Longrightarrow> trial transition rnd s g = Inr (s', g') \<Longrightarrow> best_y s' \<le> y s'"
  by (drule trial_Inr_cases) (auto simp: accept_move_inv)

lemma trials_inv:
  "best_y s \<le> y s \<Longrightarrow> trials transition rnd n s g = Inr (s', g') \<Longrightarrow> best_y s' \<le> y s'"
proof (induction n arbitrary: s g)
  case 0
  then show ?case by simp
next
  case (Suc n)
  then show ?case
    by (auto split: sum.splits dest: trial_inv)
qed

lemma trial_frame_eq:
  "trial transition rnd s g = Inr (s', g') \<Longrightarrow>
     s' = s\<lparr>x := x s', y := y s', best_x := best_x s', best_y := best_y s'\<rparr>"
  by (drule trial_Inr_cases) (auto simp: accept_move_def)

lemma trial_best_le:
  "trial transition rnd s g = Inr (s', g') \<Longrightarrow> best_y s' \<le> best_y s"
  by (drule trial_Inr_cases) (auto simp: accept_move_best_le)

lemma trial_keeps:
  assumes "trial transition rnd s g = Inr (s', g')"
  shows "T s' = T s" "T_f s' = T_f s" "T_i s' = T_i s" "decay s' = decay s"
    "reps s' = reps s" "iters s' = iters s" "obj s' = obj s" "x0 s' = x0 s"
    "SA.more s' = SA.more s"
  using trial_Inr_cases[OF assms] by (auto simp: accept_move_def)


lemma trials_best_le:
  "trials transition rnd n s g = Inr (s', g') \<Longrightarrow> best_y s' \<le> best_y s"
proof (induction n arbitrary: s g)
  case 0
  then show ?case by simp
next
  case (Suc n)
  from Suc.prems obtain s1 g1 where
    t: "trial transition rnd s g = Inr (s1, g1)" and
    r: "trials transition rnd n s1 g1 = Inr (s', g')"
    by (auto split: sum.splits)
  from Suc.IH[OF r] trial_best_le[OF t] show ?case by simp
qed



section \<open>The acceptance rule\<close>

text \<open>
  C5. A trial proposes \<open>x_new\<close> with cost \<open>y_new\<close> and \<open>df = y_new - y\<close>. Whenever the
  test can be evaluated (\<open>df < 0\<close>, or the temperature is not 0) the trial returns, and it
  is accepted iff \<open>df < 0\<close> or the number drawn is below \<open>exp (- df / T)\<close>. An accepted
  trial makes \<open>x_new\<close> and \<open>y_new\<close> the current state and cost, and the best state and
  cost as well iff \<open>y_new < best_y\<close>; a rejected one changes nothing.
\<close>

theorem metropolis_trial_rule:
  assumes "transition s g = (x_new, g1)" and "y_new = obj s x_new" and "df = y_new - y s"
    and "df < 0 \<or> T s \<noteq> 0"
  shows "\<exists>s' g'. trial transition rnd s g = Inr (s', g') \<and>
     (if df < 0 \<or> fst (rnd g1) < exp (- df / T s)
      then x s' = x_new \<and> y s' = y_new \<and>
           (if y_new < best_y s then best_x s' = x_new \<and> best_y s' = y_new
            else best_x s' = best_x s \<and> best_y s' = best_y s)
      else s' = s)"
proof -
  have "trial transition rnd s g =
          Inr (if df < 0 \<or> fst (rnd g1) < exp (- df / T s)
               then accept_move s x_new y_new else s,
               if df < 0 then g1 else snd (rnd g1))"
    using assms by (auto simp: trial_def metropolis_def Let_def split: prod.splits)
  then show ?thesis by (auto simp: accept_move_def)
qed

theorem metropolis_trial_rule_witness:
  "ex_up ex_SA [0::real] = (6, [0]) \<and> (6::real) = obj ex_SA 6 \<and> (1::real) = 6 - y ex_SA \<and>
   T ex_SA \<noteq> 0 \<and>
   (\<exists>s' g'. trial ex_up draw ex_SA [0] = Inr (s', g') \<and>
      x s' = 6 \<and> y s' = 6 \<and> best_x s' = 5 \<and> best_y s' = 5)"
  using metropolis_trial_rule[of ex_up ex_SA "[0]" 6 "[0]" 6 1 draw]
  by (simp add: ex_SA_def ex_up_def SA_init_def draw_def)

section \<open>Concrete trials\<close>

lemma exp_minus_bound: "0 \<le> (a::real) \<Longrightarrow> exp (- a) \<le> 1 / (1 + a)"
proof -
  assume a: "0 \<le> a"
  have "1 + a \<le> exp a" by (rule exp_ge_add_one_self)
  moreover have "0 < 1 + a" using a by simp
  ultimately have "1 / exp a \<le> 1 / (1 + a)" by (simp add: frac_le)
  then show ?thesis by (simp add: exp_minus inverse_eq_divide)
qed

lemma ex_up_rejected: "trial ex_up draw ex_SA [999/1000] = Inr (ex_SA, [])"
proof -
  have "exp (- (1/100)) \<le> (1::real) / (1 + 1/100)" by (rule exp_minus_bound) simp
  then have "\<not> (999/1000 < exp (- (1/100::real)))" by simp
  then show ?thesis
    by (simp add: trial_def metropolis_def ex_up_def ex_SA_def SA_init_def draw_def)
qed

lemma ex_PTSA_rejected: "trial ex_up draw ex_PTSA [999/1000] = Inr (ex_PTSA, [])"
proof -
  have "exp (- (1/100)) \<le> (1::real) / (1 + 1/100)" by (rule exp_minus_bound) simp
  then have "\<not> (999/1000 < exp (- (1/100::real)))" by simp
  then show ?thesis
    by (simp add: trial_def metropolis_def ex_up_def ex_PTSA_def PTSA_init_def SA_init_def
        draw_def SA.defs PTSA.defs)
qed

section \<open>The frame of a trial\<close>

text \<open>
  C10. A trial that returns has changed at most the current state, the current cost, the
  best state and the best cost: every other field, among them the temperature \<open>T\<close>, the
  cooling parameters \<open>T_i\<close>, \<open>T_f\<close>, \<open>decay\<close> and every field of a subclass, is as
  before. A rejected trial (\<open>df \<ge> 0\<close> and the number drawn not below \<open>exp (- df / T)\<close>)
  leaves the whole object unchanged. For a \<open>PTSA\<close> object \<open>theta\<close> and \<open>rank\<close> are
  unchanged.
\<close>

theorem trial_frame:
  "(trial transition rnd s g = Inr (s', g') \<longrightarrow>
      s' = s\<lparr>x := x s', y := y s', best_x := best_x s', best_y := best_y s'\<rparr> \<and>
      T s' = T s \<and> T_i s' = T_i s \<and> T_f s' = T_f s \<and> decay s' = decay s \<and>
      SA.more s' = SA.more s \<and>
      (\<not> obj s (fst (transition s g)) - y s < 0 \<and>
       \<not> fst (rnd (snd (transition s g)))
            < exp (- (obj s (fst (transition s g)) - y s) / T s) \<longrightarrow> s' = s)) \<and>
   (trial ptransition rnd p g = Inr (p', g') \<longrightarrow> theta p' = theta p \<and> rank p' = rank p)"
proof -
  have "s' = s" if "trial transition rnd s g = Inr (s', g')"
    and "\<not> obj s (fst (transition s g)) - y s < 0"
    and "\<not> fst (rnd (snd (transition s g)))
            < exp (- (obj s (fst (transition s g)) - y s) / T s)"
    using that by (auto simp: trial_def metropolis_def Let_def split: prod.splits if_splits)
  moreover have "theta p' = theta p \<and> rank p' = rank p"
    if "trial ptransition rnd p g = Inr (p', g')"
    using trial_Inr_cases[OF that] by (auto simp: accept_move_def)
  ultimately show ?thesis
    using trial_frame_eq[of transition rnd s g s' g'] trial_keeps[of transition rnd s g s' g']
    by blast
qed

theorem trial_frame_witness:
  "trial ex_up draw ex_SA [999/1000] = Inr (ex_SA, []) \<and>
   T ex_SA = 100 \<and> T_i ex_SA = 100 \<and> T_f ex_SA = 1 \<and> decay ex_SA = 9/10 \<and>
   \<not> obj ex_SA (fst (ex_up ex_SA [999/1000::real])) - y ex_SA < 0 \<and>
   trial ex_up draw ex_PTSA [999/1000] = Inr (ex_PTSA, []) \<and>
   theta ex_PTSA = 1/2 \<and> rank ex_PTSA = 0"
  using trial_frame[of ex_up draw ex_SA "[999/1000]" ex_SA "[]" ex_up ex_PTSA ex_PTSA]
    ex_up_rejected ex_PTSA_rejected
  by (simp add: ex_SA_def SA_init_def ex_up_def ex_PTSA_def PTSA_init_def SA.defs PTSA.defs)

section \<open>The exponential of the acceptance test\<close>




section \<open>Properties of the exchange sweep\<close>

lemma mset_argsort: "mset (argsort ts) = mset [0..<length ts]"
  by (simp add: argsort_def)

lemma length_argsort: "length (argsort ts) = length ts"
  by (simp add: argsort_def)

lemma set_argsort: "set (argsort ts) = {0..<length ts}"
  by (simp add: argsort_def)

lemma distinct_argsort: "distinct (argsort ts)"
  by (simp add: argsort_def)

lemma sorted_argsort: "sorted (map (\<lambda>i. ts ! i) (argsort ts))"
  by (simp add: argsort_def)

lemma argsort_nth_less: "i < length ts \<Longrightarrow> argsort ts ! i < length ts"
  using set_argsort[of ts] nth_mem[of i "argsort ts"] by (simp add: length_argsort)

lemma exchange_pair_cases:
  "exchange_pair rnd th fx sol1 sol2 ts g = Inr (ts', g') \<Longrightarrow>
     ts' = ts \<or> ts' = ts[sol1 := ts ! sol2, sol2 := ts ! sol1]"
  by (auto simp: exchange_pair_def split: prod.splits if_splits sum.splits)

lemma exchange_pair_mset:
  assumes "exchange_pair rnd th fx sol1 sol2 ts g = Inr (ts', g')"
    and "sol1 < length ts" and "sol2 < length ts"
  shows "mset ts' = mset ts"
  using exchange_pair_cases[OF assms(1)] assms(2,3) by (auto simp: mset_swap)

lemma exchange_pair_length:
  "exchange_pair rnd th fx sol1 sol2 ts g = Inr (ts', g') \<Longrightarrow> length ts' = length ts"
  by (drule exchange_pair_cases) auto

lemma exchange_pair_other:
  "exchange_pair rnd th fx sol1 sol2 ts g = Inr (ts', g') \<Longrightarrow> p \<noteq> sol1 \<Longrightarrow> p \<noteq> sol2 \<Longrightarrow>
     ts' ! p = ts ! p"
  by (drule exchange_pair_cases) auto

lemma exchange_pair_total:
  "ts ! sol1 \<noteq> 0 \<Longrightarrow> ts ! sol2 \<noteq> 0 \<Longrightarrow>
     \<exists>ts' g'. exchange_pair rnd th fx sol1 sol2 ts g = Inr (ts', g')"
  by (auto simp: exchange_pair_def accept_rate_def split: prod.splits)

lemma sweep_append:
  "sweep rnd th fx index (as @ bs) ts g =
     (case sweep rnd th fx index as ts g of
        Inl e \<Rightarrow> Inl e
      | Inr (ts', g') \<Rightarrow> sweep rnd th fx index bs ts' g')"
  by (induction as arbitrary: ts g) (auto split: sum.splits)

lemma sweep_mset:
  assumes "sweep rnd th fx index js ts g = Inr (ts', g')"
    and "\<forall>i\<in>set js. index ! i < length ts \<and> index ! (i + 1) < length ts"
  shows "mset ts' = mset ts"
  using assms
proof (induction js arbitrary: ts g)
  case Nil
  then show ?case by simp
next
  case (Cons i js)
  from Cons.prems(1) obtain t1 g1 where
    p: "exchange_pair rnd th fx (index ! i) (index ! (i + 1)) ts g = Inr (t1, g1)" and
    r: "sweep rnd th fx index js t1 g1 = Inr (ts', g')"
    by (auto split: sum.splits)
  have m: "mset t1 = mset ts"
    using exchange_pair_mset[OF p] Cons.prems(2) by simp
  have l: "length t1 = length ts" by (rule exchange_pair_length[OF p])
  have "mset ts' = mset t1"
    using Cons.IH[OF r] Cons.prems(2) l by simp
  with m show ?case by simp
qed

lemma sweep_total:
  assumes "0 \<notin> set ts"
    and "\<forall>i\<in>set js. index ! i < length ts \<and> index ! (i + 1) < length ts"
  shows "\<exists>ts' g'. sweep rnd th fx index js ts g = Inr (ts', g')"
  using assms
proof (induction js arbitrary: ts g)
  case Nil
  then show ?case by simp
next
  case (Cons i js)
  have a: "index ! i < length ts" and b: "index ! (i + 1) < length ts"
    using Cons.prems(2) by simp_all
  have "ts ! (index ! i) \<noteq> 0" "ts ! (index ! (i + 1)) \<noteq> 0"
    using Cons.prems(1) a b nth_mem by metis+
  from exchange_pair_total[OF this, of rnd th fx g] obtain t1 g1 where
    p: "exchange_pair rnd th fx (index ! i) (index ! (i + 1)) ts g = Inr (t1, g1)"
    by blast
  have m: "mset t1 = mset ts" using exchange_pair_mset[OF p a b] .
  then have "set t1 = set ts" by (rule mset_eq_setD)
  moreover have "length t1 = length ts" by (rule exchange_pair_length[OF p])
  ultimately obtain ts' g' where "sweep rnd th fx index js t1 g1 = Inr (ts', g')"
    using Cons.IH[of t1 g1] Cons.prems by auto
  with p show ?case by simp
qed

lemma sweep_other:
  assumes "sweep rnd th fx index js ts g = Inr (ts', g')"
    and "\<forall>i\<in>set js. p \<noteq> index ! i \<and> p \<noteq> index ! (i + 1)"
  shows "ts' ! p = ts ! p"
  using assms
proof (induction js arbitrary: ts g)
  case Nil
  then show ?case by simp
next
  case (Cons i js)
  from Cons.prems(1) obtain t1 g1 where
    q: "exchange_pair rnd th fx (index ! i) (index ! (i + 1)) ts g = Inr (t1, g1)" and
    r: "sweep rnd th fx index js t1 g1 = Inr (ts', g')"
    by (auto split: sum.splits)
  have "t1 ! p = ts ! p" using exchange_pair_other[OF q] Cons.prems(2) by simp
  moreover have "ts' ! p = t1 ! p" using Cons.IH[OF r] Cons.prems(2) by simp
  ultimately show ?case by simp
qed

lemma exchange_decision_in_range:
  "\<forall>i\<in>set [0..<length msg - 1].
     argsort (map fst msg) ! i < length (map fst msg) \<and>
     argsort (map fst msg) ! (i + 1) < length (map fst msg)"
  using argsort_nth_less[of _ "map fst msg"] by simp

lemma exchange_decision_mset:
  assumes "exchange_decision rnd th msg g = Inr (ts', g')"
  shows "mset ts' = mset (map fst msg)"
proof -
  from assms have "sweep rnd th (map (\<lambda>m. fst (snd m)) msg) (argsort (map fst msg))
      [0..<length msg - 1] (map fst msg) g = Inr (ts', g')"
    by (simp add: exchange_decision_def Let_def)
  from sweep_mset[OF this exchange_decision_in_range] show ?thesis .
qed

lemma exchange_decision_length:
  assumes "exchange_decision rnd th msg g = Inr (ts', g')"
  shows "length ts' = length msg"
  using mset_eq_length[OF exchange_decision_mset[OF assms]] by simp

lemma exchange_decision_total:
  assumes "0 \<notin> fst ` set msg"
  shows "\<exists>ts' g'. exchange_decision rnd th msg g = Inr (ts', g')"
proof -
  from assms have "0 \<notin> set (map fst msg)" by simp
  from sweep_total[OF this exchange_decision_in_range] show ?thesis
    by (simp add: exchange_decision_def Let_def)
qed

lemma scatter_nth:
  "length data = length sys \<Longrightarrow> k < length sys \<Longrightarrow>
     scatter data sys ! k = ((fst (sys ! k))\<lparr>T := data ! k\<rparr>, snd (sys ! k))"
  by (simp add: scatter_def split: prod.splits)

lemma length_scatter: "length data = length sys \<Longrightarrow> length (scatter data sys) = length sys"
  by (simp add: scatter_def)

lemma nth_distinct_neq:
  "distinct index \<Longrightarrow> j < length index \<Longrightarrow> k < length index \<Longrightarrow> j \<noteq> k \<Longrightarrow>
     index ! j \<noteq> index ! k"
  by (simp add: nth_eq_iff_index_eq)

lemma sweep_prefix_upper:
  assumes "sweep rnd th fx index [0..<i] ts g = Inr (ts', g')"
    and "distinct index" and "i < k" and "k < length index"
  shows "ts' ! (index ! k) = ts ! (index ! k)"
proof (rule sweep_other[OF assms(1)])
  show "\<forall>j\<in>set [0..<i]. index ! k \<noteq> index ! j \<and> index ! k \<noteq> index ! (j + 1)"
    using assms(2-4) by (auto simp: nth_eq_iff_index_eq)
qed

lemma exchange_pair_upper:
  assumes "exchange_pair rnd th fx sol1 sol2 ts g = Inr (ts', g')" and "sol2 < length ts"
  shows "ts' ! sol2 = (if ts' = ts then ts ! sol2 else ts ! sol1)"
  using exchange_pair_cases[OF assms(1)] assms(2) by auto

section \<open>Concrete sweeps\<close>

lemma argsort_12: "argsort [1, 2] = [0, 1]"
  by (simp add: argsort_def upt_rec)

lemma ex_exchange:
  "exchange_decision draw 0 [(1, 5, 0), (2, 3, 1)] [1/2, 0] = Inr ([2, 1], [])"
  by (simp add: exchange_decision_def argsort_12 exchange_pair_def accept_rate_def draw_def)

lemma argsort_123: "argsort [1, 2, 3] = [0, 1, 2]"
  by (simp add: argsort_def upt_rec)

lemma ex_first_pair:
  "sweep draw 0 [5, 3, 4] (argsort [1, 2, 3]) [0..<1] [1, 2, 3] [1/2, 0, 1/2, 7/10]
     = Inr ([2, 1, 3], [1/2, 7/10])"
  by (simp add: argsort_123 exchange_pair_def accept_rate_def draw_def)

lemma ex_rate_low: "\<not> 7/10 < exp (- (2/3) :: real)"
proof -
  have "exp (- (2/3)) \<le> (1::real) / (1 + 2/3)" by (rule exp_minus_bound) simp
  then show ?thesis by simp
qed

lemma ex_rate_high: "7/10 < exp (- (1/6) :: real)"
proof -
  have "1 + (- (1/6)) \<le> exp (- (1/6) :: real)" by (rule exp_ge_add_one_self)
  then show ?thesis by simp
qed

lemma ex_second_pair:
  "exchange_pair draw 0 [5, 3, 4] (argsort [1, 2, 3] ! 1) (argsort [1, 2, 3] ! (1 + 1))
     [2, 1, 3] [1/2, 7/10] = Inr ([2, 1, 3], [])"
  using ex_rate_low by (simp add: argsort_123 exchange_pair_def accept_rate_def draw_def)

section \<open>The sweep keeps the temperatures\<close>

text \<open>
  C3. For every number of replicas, every gathered list and every outcome of the draws:
  when the exchange decision returns, the list it hands to the scatter is a permutation
  of the gathered temperatures (equal as multisets, and equal once both are sorted), with
  one entry per rank. It returns whenever no gathered temperature is 0.
\<close>

theorem exchange_preserves_temperatures:
  "(exchange_decision rnd th msg g = Inr (ts', g') \<longrightarrow>
      mset ts' = mset (map fst msg) \<and> sort ts' = sort (map fst msg) \<and>
      length ts' = length msg) \<and>
   (0 \<notin> fst ` set msg \<longrightarrow> (\<exists>ts g'. exchange_decision rnd th msg g = Inr (ts, g')))"
proof -
  have "sort ts' = sort (map fst msg)" if "mset ts' = mset (map fst msg)"
    using that by (intro properties_for_sort) simp_all
  then show ?thesis
    using exchange_decision_mset[of rnd th msg g ts' g']
      exchange_decision_length[of rnd th msg g ts' g']
      exchange_decision_total[of msg rnd th g]
    by blast
qed

theorem exchange_preserves_temperatures_witness:
  "exchange_decision draw 0 [(1, 5, 0), (2, 3, 1)] [1/2, 0] = Inr ([2, 1], []) \<and>
   mset [2, 1 :: real] = mset [1, 2] \<and> sort [2, 1 :: real] = sort [1, 2] \<and>
   (\<exists>ts g'. exchange_decision draw 0 [(1, 5, 0), (2, 3, 1)] [1/2, 0] = Inr (ts, g'))"
  using exchange_preserves_temperatures
    [of draw 0 "[(1, 5, 0), (2, 3, 1)]" "[1/2, 0]" "[2, 1]" "[]"] ex_exchange
  by simp

section \<open>The exchange test of a pair\<close>



section \<open>What a pair of the sweep reads\<close>

text \<open>
  C1, as the code has it. The pair at sorted position \<open>i\<close> reads the best costs as they
  were gathered, and the temperature \<open>T2\<close> of position \<open>i + 1\<close> as it was gathered; the
  first pair reads gathered values only. The temperature \<open>T1\<close> of position \<open>i\<close> is read
  from the list that earlier pairs have written: after the pair at \<open>i\<close>, position
  \<open>i + 1\<close> (the \<open>T1\<close> of the next pair) holds its gathered temperature if the list was
  left as it was, and the \<open>T1\<close> of the pair at \<open>i\<close> if the two entries were exchanged.
\<close>

theorem sweep_inputs:
  "i + 1 < length ts0 \<and>
   sweep rnd th fx (argsort ts0) [0..<i] ts0 g = Inr (ti, gi) \<and>
   exchange_pair rnd th fx (argsort ts0 ! i) (argsort ts0 ! (i + 1)) ti gi = Inr (ti', gi') \<longrightarrow>
     pair_inputs ti fx (argsort ts0) i =
       (ti ! (argsort ts0 ! i), fx ! (argsort ts0 ! i),
        ts0 ! (argsort ts0 ! (i + 1)), fx ! (argsort ts0 ! (i + 1))) \<and>
     (i = 0 \<longrightarrow> pair_inputs ti fx (argsort ts0) i = pair_inputs ts0 fx (argsort ts0) i) \<and>
     sweep rnd th fx (argsort ts0) [0..<i + 1] ts0 g = Inr (ti', gi') \<and>
     ti' ! (argsort ts0 ! (i + 1)) =
       (if ti' = ti then ts0 ! (argsort ts0 ! (i + 1)) else ti ! (argsort ts0 ! i))"
proof (intro impI, elim conjE)
  assume i: "i + 1 < length ts0"
    and s: "sweep rnd th fx (argsort ts0) [0..<i] ts0 g = Inr (ti, gi)"
    and p: "exchange_pair rnd th fx (argsort ts0 ! i) (argsort ts0 ! (i + 1)) ti gi
              = Inr (ti', gi')"
  have up: "ti ! (argsort ts0 ! (i + 1)) = ts0 ! (argsort ts0 ! (i + 1))"
    using sweep_prefix_upper[OF s distinct_argsort, of "i + 1"] i
    by (simp add: length_argsort)
  have len: "length ti = length ts0"
    using mset_eq_length[OF sweep_mset[OF s]] argsort_nth_less[of _ ts0] i by simp
  have "argsort ts0 ! (i + 1) < length ti"
    using argsort_nth_less[OF i] len by simp
  from exchange_pair_upper[OF p this]
  have nxt: "ti' ! (argsort ts0 ! (i + 1)) =
       (if ti' = ti then ts0 ! (argsort ts0 ! (i + 1)) else ti ! (argsort ts0 ! i))"
    using up by simp
  have fst: "i = 0 \<longrightarrow> ti = ts0" using s by auto
  have app: "sweep rnd th fx (argsort ts0) [0..<i + 1] ts0 g = Inr (ti', gi')"
    using s p by (simp add: sweep_append)
  show "pair_inputs ti fx (argsort ts0) i =
       (ti ! (argsort ts0 ! i), fx ! (argsort ts0 ! i),
        ts0 ! (argsort ts0 ! (i + 1)), fx ! (argsort ts0 ! (i + 1))) \<and>
     (i = 0 \<longrightarrow> pair_inputs ti fx (argsort ts0) i = pair_inputs ts0 fx (argsort ts0) i) \<and>
     sweep rnd th fx (argsort ts0) [0..<i + 1] ts0 g = Inr (ti', gi') \<and>
     ti' ! (argsort ts0 ! (i + 1)) =
       (if ti' = ti then ts0 ! (argsort ts0 ! (i + 1)) else ti ! (argsort ts0 ! i))"
    using up nxt fst app by (simp add: pair_inputs_def)
qed

theorem sweep_inputs_witness:
  "sweep draw 0 [5, 3, 4] (argsort [1, 2, 3]) [0..<1] [1, 2, 3] [1/2, 0, 1/2, 7/10]
     = Inr ([2, 1, 3], [1/2, 7/10]) \<and>
   exchange_pair draw 0 [5, 3, 4] (argsort [1, 2, 3] ! 1) (argsort [1, 2, 3] ! (1 + 1))
     [2, 1, 3] [1/2, 7/10] = Inr ([2, 1, 3], []) \<and>
   pair_inputs [2, 1, 3] [5, 3, 4] (argsort [1, 2, 3]) 1 = (1, 3, 3, 4) \<and>
   sweep draw 0 [5, 3, 4] (argsort [1, 2, 3]) [0..<1 + 1] [1, 2, 3] [1/2, 0, 1/2, 7/10]
     = Inr ([2, 1, 3], [])"
  using sweep_inputs[of 1 "[1, 2, 3]" draw 0 "[5, 3, 4]" "[1/2, 0, 1/2, 7/10]"
      "[2, 1, 3]" "[1/2, 7/10]" "[2, 1, 3]" "[]"] ex_first_pair ex_second_pair
  by (simp add: argsort_123)

text \<open>
  C1 as stated fails. Three replicas with temperatures 1, 2, 3 and best costs 5, 3, 4,
  \<open>theta = 0\<close>: the first pair exchanges, and the second pair then reads \<open>T1 = 1\<close>, not
  the gathered 2. Its rate is \<open>exp (- 2/3)\<close> and the draw 7/10 rejects, where the rate
  from the gathered values, \<open>exp (- 1/6)\<close>, would have accepted.
\<close>

theorem later_pair_reads_swapped_temperature:
  "sweep draw 0 [5, 3, 4] (argsort [1, 2, 3]) [0..<1] [1, 2, 3] [1/2, 0, 1/2, 7/10]
     = Inr ([2, 1, 3], [1/2, 7/10]) \<and>
   pair_inputs [2, 1, 3] [5, 3, 4] (argsort [1, 2, 3]) 1 = (1, 3, 3, 4) \<and>
   pair_inputs [1, 2, 3] [5, 3, 4] (argsort [1, 2, 3]) 1 = (2, 3, 3, 4) \<and>
   accept_rate [2, 1, 3] [5, 3, 4] 1 2 = Inr (exp (- (2/3))) \<and>
   \<not> 7/10 < exp (- (2/3) :: real) \<and>
   accept_rate [1, 2, 3] [5, 3, 4] 1 2 = Inr (exp (- (1/6))) \<and>
   7/10 < exp (- (1/6) :: real) \<and>
   exchange_decision draw 0 [(1, 5, 0), (2, 3, 1), (3, 4, 2)] [1/2, 0, 1/2, 7/10]
     = Inr ([2, 1, 3], [])"
proof -
  have "exchange_decision draw 0 [(1, 5, 0), (2, 3, 1), (3, 4, 2)] [1/2, 0, 1/2, 7/10]
     = Inr ([2, 1, 3], [])"
    using ex_rate_low
    by (simp add: exchange_decision_def argsort_123 upt_rec exchange_pair_def
        accept_rate_def draw_def)
  then show ?thesis
    using ex_first_pair ex_rate_low ex_rate_high
    by (simp add: pair_inputs_def argsort_123 accept_rate_def)
qed

section \<open>Properties of the outer iterations\<close>


lemma cool_down_fields:
  "best_y (cool_down s) = best_y s" "y (cool_down s) = y s"
  "best_x (cool_down s) = best_x s" "x (cool_down s) = x s"
  "T (cool_down s) = T s * decay s" "T_f (cool_down s) = T_f s"
  "decay (cool_down s) = decay s" "reps (cool_down s) = reps s"
  by (simp_all add: cool_down_def)

lemma step_all_rel:
  "step_all transition rnd sys = Inr sys1 \<Longrightarrow>
     list_all2 (\<lambda>a b. PTSA_step transition rnd (fst a) (snd a) = Inr b) sys sys1"
proof (induction sys arbitrary: sys1)
  case Nil
  then show ?case by simp
next
  case (Cons a sys)
  obtain s g where a: "a = (s, g)" by (cases a)
  from Cons.prems a obtain b rest where
    "PTSA_step transition rnd s g = Inr b" "step_all transition rnd sys = Inr rest"
    "sys1 = b # rest"
    by (auto split: sum.splits)
  with Cons.IH[of rest] a show ?case by simp
qed

lemma PTSA_iteration_rel:
  assumes "PTSA_iteration transition rnd sys = Inr sys'"
  shows "list_all2 (\<lambda>a c. \<exists>s1 g1 t. PTSA_step transition rnd (fst a) (snd a) = Inr (s1, g1) \<and>
            fst c = cool_down (s1\<lparr>T := t\<rparr>)) sys sys'"
proof -
  from assms obtain sys1 where st: "step_all transition rnd sys = Inr sys1"
    by (auto simp: PTSA_iteration_def split: sum.splits)
  note r1 = step_all_rel[OF st]
  show ?thesis
  proof (cases sys1)
    case Nil
    with assms st r1 show ?thesis by (simp add: PTSA_iteration_def)
  next
    case (Cons a rest)
    obtain s0 g0 where a: "a = (s0, g0)" by (cases a)
    from assms st Cons a obtain data g0' where
      ex: "exchange_decision rnd (theta s0) (gather ((s0, g0) # rest)) g0 = Inr (data, g0')"
      and res: "sys' = map (\<lambda>(s, g). (cool_down s, g)) (scatter data ((s0, g0') # rest))"
      by (auto simp: PTSA_iteration_def split: sum.splits)
    have ld: "length data = length ((s0, g0') # rest)"
      using exchange_decision_length[OF ex] by (simp add: gather_def)
    have l1: "length sys1 = length sys" using r1 by (simp add: list_all2_lengthD)
    have l': "length sys' = length sys1"
      using res ld Cons by (simp add: length_scatter)
    have "list_all2 (\<lambda>b c. \<exists>t. fst c = cool_down ((fst b)\<lparr>T := t\<rparr>)) sys1 sys'"
    proof (rule list_all2_all_nthI)
      show "length sys1 = length sys'" using l' by simp
    next
      fix k assume k: "k < length sys1"
      then have k': "k < length ((s0, g0') # rest)" using Cons by simp
      have "fst (((s0, g0') # rest) ! k) = fst (sys1 ! k)"
        using Cons a by (cases k) simp_all
      moreover have "fst (sys' ! k) = cool_down ((fst (((s0, g0') # rest) ! k))\<lparr>T := data ! k\<rparr>)"
        using res k' ld scatter_nth[OF ld k'] length_scatter[OF ld]
        by (simp add: split_beta)
      ultimately show "\<exists>t. fst (sys' ! k) = cool_down ((fst (sys1 ! k))\<lparr>T := t\<rparr>)"
        by auto
    qed
    with r1 show ?thesis
      by (rule list_all2_trans[rotated]) auto
  qed
qed

lemma PTSA_step_best_le:
  "PTSA_step transition rnd s g = Inr (s', g') \<Longrightarrow> best_y s' \<le> best_y s"
  unfolding PTSA_step_def by (rule trials_best_le)

lemma SA_step_best_le:
  "SA_step transition rnd s g = Inr (s', g') \<Longrightarrow> best_y s' \<le> best_y s"
  unfolding SA_step_def by (rule trials_best_le)

lemma PTSA_step_inv:
  "best_y s \<le> y s \<Longrightarrow> PTSA_step transition rnd s g = Inr (s', g') \<Longrightarrow> best_y s' \<le> y s'"
  unfolding PTSA_step_def by (rule trials_inv)

lemma SA_step_inv:
  "best_y s \<le> y s \<Longrightarrow> SA_step transition rnd s g = Inr (s', g') \<Longrightarrow> best_y s' \<le> y s'"
  unfolding SA_step_def by (rule trials_inv)

lemma PTSA_iteration_best_le:
  assumes "PTSA_iteration transition rnd sys = Inr sys'"
  shows "list_all2 (\<lambda>a c. best_y (fst c) \<le> best_y (fst a)) sys sys'"
  using PTSA_iteration_rel[OF assms]
  by (rule list_all2_mono) (auto simp: cool_down_def dest: PTSA_step_best_le)

lemma PTSA_iteration_inv:
  assumes "PTSA_iteration transition rnd sys = Inr sys'"
    and "list_all (\<lambda>a. best_y (fst a) \<le> y (fst a)) sys"
  shows "list_all (\<lambda>a. best_y (fst a) \<le> y (fst a)) sys'"
proof -
  note r = PTSA_iteration_rel[OF assms(1)]
  have "best_y (fst (sys' ! k)) \<le> y (fst (sys' ! k))" if k: "k < length sys'" for k
  proof -
    from r k have kk: "k < length sys" by (simp add: list_all2_lengthD)
    from list_all2_nthD[OF r kk] obtain s1 g1 t where
      st: "PTSA_step transition rnd (fst (sys ! k)) (snd (sys ! k)) = Inr (s1, g1)" and
      eq: "fst (sys' ! k) = cool_down (s1\<lparr>T := t\<rparr>)" by blast
    from assms(2) kk have "best_y (fst (sys ! k)) \<le> y (fst (sys ! k))"
      by (simp add: list_all_length)
    from PTSA_step_inv[OF this st] eq show ?thesis by (simp add: cool_down_def)
  qed
  then show ?thesis by (simp add: list_all_length)
qed

lemma PTSA_loop_best_le:
  "PTSA_loop transition rnd n sys = Inr sys' \<Longrightarrow>
     list_all2 (\<lambda>a c. best_y (fst c) \<le> best_y (fst a)) sys sys'"
proof (induction n arbitrary: sys)
  case 0
  then show ?case by (simp add: list_all2_conv_all_nth)
next
  case (Suc n)
  from Suc.prems obtain sys1 where
    i: "PTSA_iteration transition rnd sys = Inr sys1" and
    l: "PTSA_loop transition rnd n sys1 = Inr sys'"
    by (auto split: sum.splits)
  from PTSA_iteration_best_le[OF i] Suc.IH[OF l] show ?case
    by (rule list_all2_trans[rotated]) auto
qed

lemma PTSA_loop_inv:
  "PTSA_loop transition rnd n sys = Inr sys' \<Longrightarrow>
     list_all (\<lambda>a. best_y (fst a) \<le> y (fst a)) sys \<Longrightarrow>
     list_all (\<lambda>a. best_y (fst a) \<le> y (fst a)) sys'"
proof (induction n arbitrary: sys)
  case 0
  then show ?case by simp
next
  case (Suc n)
  from Suc.prems(1) obtain sys1 where
    i: "PTSA_iteration transition rnd sys = Inr sys1" and
    l: "PTSA_loop transition rnd n sys1 = Inr sys'"
    by (auto split: sum.splits)
  from Suc.IH[OF l PTSA_iteration_inv[OF i Suc.prems(2)]] show ?case .
qed

lemma set_ranks_nth:
  "k < length sys \<Longrightarrow> set_ranks sys ! k = ((fst (sys ! k))\<lparr>rank := k\<rparr>, snd (sys ! k))"
  by (simp add: set_ranks_def split: prod.splits)

lemma length_set_ranks: "length (set_ranks sys) = length sys"
  by (simp add: set_ranks_def)

lemma set_ranks_best: "list_all2 (\<lambda>a c. best_y (fst c) \<le> best_y (fst a)) sys (set_ranks sys)"
  by (simp add: list_all2_conv_all_nth length_set_ranks set_ranks_nth)

lemma set_ranks_inv:
  "list_all (\<lambda>a. best_y (fst a) \<le> y (fst a)) sys \<Longrightarrow>
     list_all (\<lambda>a. best_y (fst a) \<le> y (fst a)) (set_ranks sys)"
  by (simp add: list_all_length length_set_ranks set_ranks_nth)

lemma PTSA_run_best_le:
  assumes "PTSA_run transition rnd sys = Inr sys'"
  shows "list_all2 (\<lambda>a c. best_y (fst c) \<le> best_y (fst a)) sys sys'"
proof (cases sys)
  case Nil
  with assms show ?thesis by (simp add: PTSA_run_def)
next
  case (Cons a rest)
  with assms have "PTSA_loop transition rnd (nat (iters (fst a))) (set_ranks sys) = Inr sys'"
    by (simp add: PTSA_run_def split: prod.splits)
  from set_ranks_best PTSA_loop_best_le[OF this] show ?thesis
    by (rule list_all2_trans[rotated]) auto
qed

lemma PTSA_run_inv:
  assumes "PTSA_run transition rnd sys = Inr sys'"
    and "list_all (\<lambda>a. best_y (fst a) \<le> y (fst a)) sys"
  shows "list_all (\<lambda>a. best_y (fst a) \<le> y (fst a)) sys'"
proof (cases sys)
  case Nil
  with assms show ?thesis by (simp add: PTSA_run_def)
next
  case (Cons a rest)
  with assms have "PTSA_loop transition rnd (nat (iters (fst a))) (set_ranks sys) = Inr sys'"
    by (simp add: PTSA_run_def split: prod.splits)
  from PTSA_loop_inv[OF this set_ranks_inv[OF assms(2)]] show ?thesis .
qed

lemma SA_loop_best_le:
  "SA_loop transition rnd fuel s g = Some (Inr (s', g')) \<Longrightarrow> best_y s' \<le> best_y s"
proof (induction fuel arbitrary: s g)
  case 0
  then show ?case by (simp split: if_splits)
next
  case (Suc k)
  show ?case
  proof (cases "T s > T_f s")
    case True
    with Suc.prems obtain s1 g1 where
      st: "SA_step transition rnd s g = Inr (s1, g1)" and
      l: "SA_loop transition rnd k (cool_down s1) g1 = Some (Inr (s', g'))"
      by (auto split: sum.splits)
    from Suc.IH[OF l] SA_step_best_le[OF st] show ?thesis by (simp add: cool_down_def)
  next
    case False
    with Suc.prems show ?thesis by simp
  qed
qed

lemma SA_loop_inv:
  "SA_loop transition rnd fuel s g = Some (Inr (s', g')) \<Longrightarrow> best_y s \<le> y s \<Longrightarrow>
     best_y s' \<le> y s'"
proof (induction fuel arbitrary: s g)
  case 0
  then show ?case by (simp split: if_splits)
next
  case (Suc k)
  show ?case
  proof (cases "T s > T_f s")
    case True
    with Suc.prems obtain s1 g1 where
      st: "SA_step transition rnd s g = Inr (s1, g1)" and
      l: "SA_loop transition rnd k (cool_down s1) g1 = Some (Inr (s', g'))"
      by (auto split: sum.splits)
    have "best_y (cool_down s1) \<le> y (cool_down s1)"
      using SA_step_inv[OF Suc.prems(2) st] by (simp add: cool_down_def)
    from Suc.IH[OF l this] show ?thesis .
  next
    case False
    with Suc.prems show ?thesis by simp
  qed
qed

lemma scatter_best:
  "length data = length sys \<Longrightarrow>
     list_all2 (\<lambda>a c. best_y (fst c) = best_y (fst a)) sys (scatter data sys)"
  by (simp add: list_all2_conv_all_nth length_scatter scatter_nth)





section \<open>Concrete runs\<close>

lemma ex_down_trial:
  "trial ex_down draw ex_SA [] = Inr (ex_SA\<lparr>x := 4, y := 4, best_x := 4, best_y := 4\<rparr>, [])"
  by (simp add: trial_def metropolis_def accept_move_def ex_down_def ex_SA_def SA_init_def)

lemma ex_down_step:
  "SA_step ex_down draw ex_SA [] = Inr (ex_SA\<lparr>x := 2, y := 2, best_x := 2, best_y := 2\<rparr>, [])"
  by (simp add: SA_step_def eval_nat_numeral trial_def metropolis_def accept_move_def
      ex_down_def ex_SA_def SA_init_def)

lemma ex_up_trial: "trial ex_up draw ex_SA [0] = Inr (ex_SA\<lparr>x := 6, y := 6\<rparr>, [])"
  by (simp add: trial_def metropolis_def accept_move_def ex_up_def ex_SA_def SA_init_def
      draw_def)

lemma ex_pair_inv: "list_all (\<lambda>a. best_y (fst a) \<le> y (fst a)) ex_pair"
  by (simp add: ex_pair_def PTSA_init_def SA_init_def SA.defs PTSA.defs)

lemma ex_short_loop:
  "SA_loop ex_down draw 1 ex_short [] =
     Some (Inr (ex_short\<lparr>x := 4, y := 4, best_x := 4, best_y := 4, T := 1\<rparr>, []))"
  by (simp add: SA_step_def trial_def metropolis_def accept_move_def cool_down_def
      ex_down_def ex_short_def SA_init_def)

lemma ex_PTSA_step:
  "PTSA_step ex_down draw ex_PTSA [] =
     Inr (ex_PTSA\<lparr>x := 2, y := 2, best_x := 2, best_y := 2\<rparr>, [])"
  by (simp add: PTSA_step_def eval_nat_numeral trial_def metropolis_def accept_move_def
      ex_down_def ex_PTSA_def PTSA_init_def SA_init_def SA.defs PTSA.defs)

lemma ex_pair_step:
  "step_all ex_down draw (set_ranks ex_pair) =
     Inr [((PTSA_init real_of_int 5 1 0 (9/10) 1 1 0)
         \<lparr>x := 4, y := 4, best_x := 4, best_y := 4\<rparr>, [1/2, 0]),
      ((PTSA_init real_of_int 3 2 0 (9/10) 1 1 0)
         \<lparr>x := 2, y := 2, best_x := 2, best_y := 2, rank := 1\<rparr>, [])]"
  by (simp add: ex_pair_def set_ranks_def upt_rec PTSA_step_def trial_def metropolis_def
      accept_move_def ex_down_def PTSA_init_def SA_init_def SA.defs PTSA.defs)

lemma ex_pair_iteration: "PTSA_iteration ex_down draw (set_ranks ex_pair) = Inr ex_pair_after"
  unfolding PTSA_iteration_def ex_pair_step
  by (simp add: ex_pair_after_def gather_def exchange_decision_def argsort_12
      exchange_pair_def accept_rate_def draw_def scatter_def cool_down_def
      PTSA_init_def SA_init_def SA.defs PTSA.defs)

lemma ex_pair_run: "PTSA_run ex_down draw ex_pair = Inr ex_pair_after"
proof -
  have "PTSA_run ex_down draw ex_pair = PTSA_loop ex_down draw (Suc 0) (set_ranks ex_pair)"
    by (simp add: PTSA_run_def ex_pair_def PTSA_init_def SA_init_def SA.defs PTSA.defs)
  then show ?thesis by (simp add: ex_pair_iteration)
qed

section \<open>The best cost is below the current cost\<close>

text \<open>
  C4. \<open>best_y \<le> y\<close> holds for every replica at every point. A constructed object has
  current state = best state = \<open>x0\<close> and both costs equal to \<open>obj x0\<close>; the inequality
  is kept by every trial that returns (accepted or not), so by a whole step of \<open>SA\<close> and
  of \<open>PTSA\<close>, by cooling, by an outer iteration of all replicas (step, exchange,
  scatter, cooling), by the whole run of \<open>PTSA\<close> and by the run of \<open>SA\<close>.
\<close>

theorem best_le_current:
  "best_y (SA_init ob start Ti Tf d r it) \<le> y (SA_init ob start Ti Tf d r it) \<and>
   x (SA_init ob start Ti Tf d r it) = start \<and>
   best_x (SA_init ob start Ti Tf d r it) = start \<and>
   y (SA_init ob start Ti Tf d r it) = ob start \<and>
   best_y (SA_init ob start Ti Tf d r it) = ob start \<and>
   best_y (PTSA_init ob start Ti Tf d r it th) \<le> y (PTSA_init ob start Ti Tf d r it th) \<and>
   (best_y s \<le> y s \<and> trial transition rnd s g = Inr (s1, g1) \<longrightarrow> best_y s1 \<le> y s1) \<and>
   (best_y s \<le> y s \<and> SA_step transition rnd s g = Inr (s2, g2) \<longrightarrow> best_y s2 \<le> y s2) \<and>
   (best_y p \<le> y p \<and> PTSA_step ptransition rnd p g = Inr (p1, g3) \<longrightarrow> best_y p1 \<le> y p1) \<and>
   (best_y s \<le> y s \<longrightarrow> best_y (cool_down s) \<le> y (cool_down s)) \<and>
   (list_all (\<lambda>a. best_y (fst a) \<le> y (fst a)) sys \<and>
    PTSA_iteration ptransition rnd sys = Inr sys1 \<longrightarrow>
      list_all (\<lambda>a. best_y (fst a) \<le> y (fst a)) sys1) \<and>
   (list_all (\<lambda>a. best_y (fst a) \<le> y (fst a)) sys \<and>
    PTSA_run ptransition rnd sys = Inr sys2 \<longrightarrow>
      list_all (\<lambda>a. best_y (fst a) \<le> y (fst a)) sys2) \<and>
   (best_y s \<le> y s \<and> SA_loop transition rnd fuel s g = Some (Inr (s3, g4)) \<longrightarrow>
      best_y s3 \<le> y s3)"
proof -
  have init: "best_y (SA_init ob start Ti Tf d r it) \<le> y (SA_init ob start Ti Tf d r it) \<and>
   x (SA_init ob start Ti Tf d r it) = start \<and>
   best_x (SA_init ob start Ti Tf d r it) = start \<and>
   y (SA_init ob start Ti Tf d r it) = ob start \<and>
   best_y (SA_init ob start Ti Tf d r it) = ob start"
    by (simp add: SA_init_def)
  have pinit: "best_y (PTSA_init ob start Ti Tf d r it th)
      \<le> y (PTSA_init ob start Ti Tf d r it th)"
    by (simp add: PTSA_init_def SA_init_def SA.defs)
  have cool: "best_y s \<le> y s \<longrightarrow> best_y (cool_down s) \<le> y (cool_down s)"
    by (simp add: cool_down_def)
  show ?thesis
    using init pinit cool
      trial_inv[of s transition rnd g s1 g1]
      SA_step_inv[of s transition rnd g s2 g2]
      PTSA_step_inv[of p ptransition rnd g p1 g3]
      PTSA_iteration_inv[of ptransition rnd sys sys1]
      PTSA_run_inv[of ptransition rnd sys sys2]
      SA_loop_inv[of transition rnd fuel s g s3 g4]
    by blast
qed

theorem best_le_current_witness:
  "best_y ex_SA \<le> y ex_SA \<and> x ex_SA = 5 \<and> best_x ex_SA = 5 \<and> y ex_SA = 5 \<and>
   best_y ex_SA = 5 \<and> best_y ex_PTSA \<le> y ex_PTSA \<and>
   trial ex_up draw ex_SA [0] = Inr (ex_SA\<lparr>x := 6, y := 6\<rparr>, []) \<and>
   best_y (ex_SA\<lparr>x := 6, y := 6\<rparr>) \<le> y (ex_SA\<lparr>x := 6, y := 6\<rparr>) \<and>
   SA_step ex_down draw ex_SA [] = Inr (ex_SA\<lparr>x := 2, y := 2, best_x := 2, best_y := 2\<rparr>, []) \<and>
   best_y (ex_SA\<lparr>x := 2, y := 2, best_x := 2, best_y := 2\<rparr>)
     \<le> y (ex_SA\<lparr>x := 2, y := 2, best_x := 2, best_y := 2\<rparr>) \<and>
   PTSA_step ex_down draw ex_PTSA [] =
     Inr (ex_PTSA\<lparr>x := 2, y := 2, best_x := 2, best_y := 2\<rparr>, []) \<and>
   best_y (ex_PTSA\<lparr>x := 2, y := 2, best_x := 2, best_y := 2\<rparr>)
     \<le> y (ex_PTSA\<lparr>x := 2, y := 2, best_x := 2, best_y := 2\<rparr>) \<and>
   best_y (cool_down ex_SA) \<le> y (cool_down ex_SA) \<and>
   list_all (\<lambda>a. best_y (fst a) \<le> y (fst a)) ex_pair \<and>
   PTSA_run ex_down draw ex_pair = Inr ex_pair_after \<and>
   list_all (\<lambda>a. best_y (fst a) \<le> y (fst a)) ex_pair_after \<and>
   SA_loop ex_down draw 1 ex_short [] =
     Some (Inr (ex_short\<lparr>x := 4, y := 4, best_x := 4, best_y := 4, T := 1\<rparr>, [])) \<and>
   best_y (ex_short\<lparr>x := 4, y := 4, best_x := 4, best_y := 4, T := 1\<rparr>)
     \<le> y (ex_short\<lparr>x := 4, y := 4, best_x := 4, best_y := 4, T := 1\<rparr>)"
proof -
  note th = best_le_current[where ob = real_of_int and start = 5 and Ti = 100 and Tf = 1
      and d = "9/10" and r = 3 and it = 10 and th = "1/2" and rnd = draw,
      folded ex_SA_def ex_PTSA_def]
  have i: "best_y ex_SA \<le> y ex_SA \<and> x ex_SA = 5 \<and> best_x ex_SA = 5 \<and> y ex_SA = 5 \<and>
     best_y ex_SA = 5 \<and> best_y ex_PTSA \<le> y ex_PTSA"
    by (simp add: ex_SA_def ex_PTSA_def PTSA_init_def SA_init_def SA.defs)
  have c1: "best_y (ex_SA\<lparr>x := 6, y := 6\<rparr>) \<le> y (ex_SA\<lparr>x := 6, y := 6\<rparr>)"
    using th[where transition = ex_up and s = ex_SA and g = "[0]"] ex_up_trial i by blast
  have c2: "best_y (ex_SA\<lparr>x := 2, y := 2, best_x := 2, best_y := 2\<rparr>)
     \<le> y (ex_SA\<lparr>x := 2, y := 2, best_x := 2, best_y := 2\<rparr>)"
    using th[where transition = ex_down and s = ex_SA and g = "[]"] ex_down_step i by blast
  have c3: "best_y (ex_PTSA\<lparr>x := 2, y := 2, best_x := 2, best_y := 2\<rparr>)
     \<le> y (ex_PTSA\<lparr>x := 2, y := 2, best_x := 2, best_y := 2\<rparr>)"
    using th[where ptransition = ex_down and p = ex_PTSA and g = "[]"] ex_PTSA_step i
    by blast
  have c4: "best_y (cool_down ex_SA) \<le> y (cool_down ex_SA)"
    using th[where s = ex_SA] i by blast
  have c5: "list_all (\<lambda>a. best_y (fst a) \<le> y (fst a)) ex_pair_after"
    using th[where ptransition = ex_down and sys = ex_pair] ex_pair_run ex_pair_inv by blast
  have e: "best_y ex_short \<le> y ex_short" by (simp add: ex_short_def SA_init_def)
  have c6: "best_y (ex_short\<lparr>x := 4, y := 4, best_x := 4, best_y := 4, T := 1\<rparr>)
     \<le> y (ex_short\<lparr>x := 4, y := 4, best_x := 4, best_y := 4, T := 1\<rparr>)"
    using th[where transition = ex_down and s = ex_short and g = "[]" and fuel = 1]
      ex_short_loop e by blast
  show ?thesis
    using i c1 c2 c3 c4 c5 c6 ex_up_trial ex_down_step ex_PTSA_step ex_pair_inv ex_pair_run
      ex_short_loop
    by blast
qed

section \<open>The best cost never increases\<close>

text \<open>
  C7. The best cost of a replica never increases: not in a trial, not in a step, not in
  cooling, not in the scatter (which leaves it as it is), not in an outer iteration of all
  replicas (the exchange sweep included), hence not in a run of \<open>PTSA\<close> nor of \<open>SA\<close>.
\<close>

theorem best_cost_never_increases:
  "(trial transition rnd s g = Inr (s1, g1) \<longrightarrow> best_y s1 \<le> best_y s) \<and>
   (SA_step transition rnd s g = Inr (s2, g2) \<longrightarrow> best_y s2 \<le> best_y s) \<and>
   (PTSA_step ptransition rnd p g = Inr (p1, g3) \<longrightarrow> best_y p1 \<le> best_y p) \<and>
   best_y (cool_down s) = best_y s \<and>
   (length data = length sys \<longrightarrow>
      list_all2 (\<lambda>a c. best_y (fst c) = best_y (fst a)) sys (scatter data sys)) \<and>
   (PTSA_iteration ptransition rnd sys = Inr sys1 \<longrightarrow>
      list_all2 (\<lambda>a c. best_y (fst c) \<le> best_y (fst a)) sys sys1) \<and>
   (PTSA_run ptransition rnd sys = Inr sys2 \<longrightarrow>
      list_all2 (\<lambda>a c. best_y (fst c) \<le> best_y (fst a)) sys sys2) \<and>
   (SA_loop transition rnd fuel s g = Some (Inr (s3, g4)) \<longrightarrow> best_y s3 \<le> best_y s)"
proof -
  have "best_y (cool_down s) = best_y s" by (simp add: cool_down_def)
  then show ?thesis
    using trial_best_le[of transition rnd s g s1 g1]
      SA_step_best_le[of transition rnd s g s2 g2]
      PTSA_step_best_le[of ptransition rnd p g p1 g3]
      scatter_best[of data sys]
      PTSA_iteration_best_le[of ptransition rnd sys sys1]
      PTSA_run_best_le[of ptransition rnd sys sys2]
      SA_loop_best_le[of transition rnd fuel s g s3 g4]
    by blast
qed

theorem best_cost_never_increases_witness:
  "trial ex_down draw ex_SA [] = Inr (ex_SA\<lparr>x := 4, y := 4, best_x := 4, best_y := 4\<rparr>, []) \<and>
   best_y (ex_SA\<lparr>x := 4, y := 4, best_x := 4, best_y := 4\<rparr>) \<le> best_y ex_SA \<and>
   SA_step ex_down draw ex_SA [] = Inr (ex_SA\<lparr>x := 2, y := 2, best_x := 2, best_y := 2\<rparr>, []) \<and>
   best_y (ex_SA\<lparr>x := 2, y := 2, best_x := 2, best_y := 2\<rparr>) \<le> best_y ex_SA \<and>
   PTSA_step ex_down draw ex_PTSA [] =
     Inr (ex_PTSA\<lparr>x := 2, y := 2, best_x := 2, best_y := 2\<rparr>, []) \<and>
   best_y (ex_PTSA\<lparr>x := 2, y := 2, best_x := 2, best_y := 2\<rparr>) \<le> best_y ex_PTSA \<and>
   length [2, 1 :: real] = length ex_pair \<and>
   list_all2 (\<lambda>a c. best_y (fst c) = best_y (fst a)) ex_pair (scatter [2, 1] ex_pair) \<and>
   PTSA_iteration ex_down draw (set_ranks ex_pair) = Inr ex_pair_after \<and>
   list_all2 (\<lambda>a c. best_y (fst c) \<le> best_y (fst a)) (set_ranks ex_pair) ex_pair_after \<and>
   PTSA_run ex_down draw ex_pair = Inr ex_pair_after \<and>
   list_all2 (\<lambda>a c. best_y (fst c) \<le> best_y (fst a)) ex_pair ex_pair_after \<and>
   SA_loop ex_down draw 1 ex_short [] =
     Some (Inr (ex_short\<lparr>x := 4, y := 4, best_x := 4, best_y := 4, T := 1\<rparr>, [])) \<and>
   best_y (ex_short\<lparr>x := 4, y := 4, best_x := 4, best_y := 4, T := 1\<rparr>) \<le> best_y ex_short"
proof -
  note th = best_cost_never_increases[where rnd = draw and g = "[]::real list"]
  have c1: "best_y (ex_SA\<lparr>x := 4, y := 4, best_x := 4, best_y := 4\<rparr>) \<le> best_y ex_SA"
    using th[where transition = ex_down and s = ex_SA] ex_down_trial by blast
  have c2: "best_y (ex_SA\<lparr>x := 2, y := 2, best_x := 2, best_y := 2\<rparr>) \<le> best_y ex_SA"
    using th[where transition = ex_down and s = ex_SA] ex_down_step by blast
  have c3: "best_y (ex_PTSA\<lparr>x := 2, y := 2, best_x := 2, best_y := 2\<rparr>) \<le> best_y ex_PTSA"
    using th[where ptransition = ex_down and p = ex_PTSA] ex_PTSA_step by blast
  have l: "length [2, 1 :: real] = length ex_pair" by (simp add: ex_pair_def)
  have c4: "list_all2 (\<lambda>a c. best_y (fst c) = best_y (fst a)) ex_pair (scatter [2, 1] ex_pair)"
    using th[where data = "[2, 1]" and sys = ex_pair] l by blast
  have c5: "list_all2 (\<lambda>a c. best_y (fst c) \<le> best_y (fst a)) (set_ranks ex_pair) ex_pair_after"
    using th[where ptransition = ex_down and sys = "set_ranks ex_pair"] ex_pair_iteration
    by blast
  have c6: "list_all2 (\<lambda>a c. best_y (fst c) \<le> best_y (fst a)) ex_pair ex_pair_after"
    using th[where ptransition = ex_down and sys = ex_pair] ex_pair_run by blast
  have c7: "best_y (ex_short\<lparr>x := 4, y := 4, best_x := 4, best_y := 4, T := 1\<rparr>)
      \<le> best_y ex_short"
    using th[where transition = ex_down and s = ex_short and fuel = 1] ex_short_loop by blast
  show ?thesis
    using c1 c2 c3 c4 c5 c6 c7 l ex_down_trial ex_down_step ex_PTSA_step ex_pair_iteration
      ex_pair_run ex_short_loop
    by blast
qed

section \<open>One replica\<close>


section \<open>Properties of the single-replica loop\<close>








section \<open>The number of passes of the single-replica run\<close>



end
